theory Spec2Isabelle
  imports Main "HOL-Library.Sublist"
begin

section \<open>Data model of \<open>tests/demand-supply.spec.ts\<close>\<close>

text \<open>
  A JavaScript string is modelled as a \<^typ>\<open>string\<close>, one \<^typ>\<open>char\<close> per code unit; the
  model covers the code units below 256. A JavaScript number that holds an integer is
  modelled as the \<^typ>\<open>int\<close> it holds (\<open>-0\<close> as \<open>0\<close>: the source only compares numbers with
  \<open>>=\<close>, \<open><\<close> and \<open>!==\<close>, which do not tell them apart), and \<open>NaN\<close> as \<open>None\<close>. The
  model is exact for the integers a double holds exactly (up to \<open>2^53\<close> in size), which
  covers every count a table cell shows.
\<close>

text \<open>\<open>interface DemandData { labels: string[]; values: number[] }\<close>\<close>

record DemandData =
  dd_labels :: "string list"
  dd_values :: "int list"

text \<open>\<open>interface SupplyData { values: number[]; headers: string[] }\<close>\<close>

record SupplyData =
  sd_values :: "int list"
  sd_headers :: "string list"

text \<open>One element of \<open>grossSalesRows\<close>: \<open>{ year: number; values: number[]; headers: string[] }\<close>.\<close>

record GrossSalesRow =
  year :: int
  row_values :: "int list"
  headers :: "string list"

text \<open>
  One element of \<open>AlignmentResult.mismatches\<close>:
  \<open>{ index: number; month: string; supply: number; demand: number }\<close>.
\<close>

record Mismatch =
  mm_index :: nat
  mm_month :: string
  mm_supply :: int
  mm_demand :: int

record AlignmentResult =
  mismatches :: "Mismatch list"
  comparedCount :: nat

text \<open>
  A table cell as the extraction reads it: its \<open>textContent\<close> and, when the cell holds an
  \<open>input\<close> element, the \<open>value\<close> of the first one (\<open>cell.querySelector('input')\<close>).
\<close>

record Cell =
  textContent :: string
  input_value :: "string option"

text \<open>The \<open>Error\<close> thrown by \<open>alignAndCompare\<close>, with the two parts of its message.\<close>

datatype error = PivotNotFound string "string list"

text \<open>
  The three verdicts that the classification policy names. The test body ends either
  with a failed \<open>expect\<close> (\<open>Fail\<close>) or by returning (\<open>Pass\<close>); the test reporter and
  the results schema know no third status.
\<close>

datatype verdict = Pass | Fail | Advisory


section \<open>JavaScript string primitives\<close>

text \<open>White space and line terminators that \<open>trim\<close> and \<open>parseInt\<close> skip, below 256.\<close>

definition is_ws :: "char \<Rightarrow> bool" where
  "is_ws c = (of_char c \<in> {9, 10, 11, 12, 13, 32, 160 :: nat})"

definition trimStart :: "string \<Rightarrow> string" where
  "trimStart s = dropWhile is_ws s"

definition trim :: "string \<Rightarrow> string" where
  "trim s = rev (dropWhile is_ws (rev (dropWhile is_ws s)))"

text \<open>\<open>s.replace(/,/g, '')\<close>\<close>

definition remove_commas :: "string \<Rightarrow> string" where
  "remove_commas s = filter (\<lambda>c. c \<noteq> CHR '','') s"

text \<open>\<open>s.includes(t)\<close>\<close>

fun str_includes :: "string \<Rightarrow> string \<Rightarrow> bool" where
  "str_includes [] t = (t = [])"
| "str_includes (c # cs) t = (prefix t (c # cs) \<or> str_includes cs t)"

text \<open>The value of a digit in radix 10 or 16, \<open>None\<close> for any other code unit.\<close>

definition digit_value :: "nat \<Rightarrow> char \<Rightarrow> nat option" where
  "digit_value R c =
     (let n = (of_char c :: nat) in
      if 48 \<le> n \<and> n \<le> 57 then Some (n - 48)
      else if R = 16 \<and> 97 \<le> n \<and> n \<le> 102 then Some (n - 87)
      else if R = 16 \<and> 65 \<le> n \<and> n \<le> 70 then Some (n - 55)
      else None)"

definition is_digit :: "nat \<Rightarrow> char \<Rightarrow> bool" where
  "is_digit R c = (digit_value R c \<noteq> None)"

fun digits_value :: "nat \<Rightarrow> string \<Rightarrow> nat \<Rightarrow> nat" where
  "digits_value R [] acc = acc"
| "digits_value R (c # cs) acc =
     digits_value R cs (acc * R + (case digit_value R c of Some d \<Rightarrow> d | None \<Rightarrow> 0))"

text \<open>
  \<open>parseInt(string)\<close> with no radix, after ECMAScript: skip leading white space, read a
  sign, switch to radix 16 after \<open>0x\<close> or \<open>0X\<close>, take the longest prefix of digits; \<open>NaN\<close>
  when that prefix is empty. The result is the integer the digits denote (JavaScript
  rounds it to a double above \<open>2^53\<close>).
\<close>

definition parseInt :: "string \<Rightarrow> int option" where
  "parseInt inputString =
     (let S = trimStart inputString;
          sign = (if S \<noteq> [] \<and> hd S = CHR ''-'' then - 1 else 1 :: int);
          S1 = (if S \<noteq> [] \<and> (hd S = CHR ''+'' \<or> hd S = CHR ''-'') then tl S else S);
          hex = (take 2 S1 = ''0x'' \<or> take 2 S1 = ''0X'');
          R = (if hex then 16 else 10 :: nat);
          S2 = (if hex then drop 2 S1 else S1);
          Z = takeWhile (is_digit R) S2
      in if Z = [] then None else Some (sign * int (digits_value R Z 0)))"


text \<open>The decimal digits of \<open>i\<close>, for the template literal \<open>`Month ${i}`\<close>.\<close>

definition digit_char :: "nat \<Rightarrow> char" where
  "digit_char d = char_of (of_char CHR ''0'' + d)"

fun string_of_nat :: "nat \<Rightarrow> string" where
  "string_of_nat n =
     (let q = n div 10 in
      if q = 0 then [digit_char n] else string_of_nat q @ [digit_char (n mod 10)])"

declare string_of_nat.simps [simp del]


section \<open>Reading the cells of a located row\<close>

text \<open>
  Both extractions read a cell the same way:
  \<^verbatim>\<open>
  const input = cell.querySelector('input');
  if (input && input.value) { valueText = input.value; } else { valueText = cellText; }
  \<close>
\<close>

definition valueText :: "Cell \<Rightarrow> string \<Rightarrow> string" where
  "valueText cell cellText =
     (case input_value cell of
        Some v \<Rightarrow> if v \<noteq> [] then v else cellText
      | None \<Rightarrow> cellText)"

text \<open>
  The number parser of the supply extraction (line 94):
  \<open>parseInt(valueText.replace(/,/g, '').trim())\<close>.
\<close>

definition parseCount :: "string \<Rightarrow> int option" where
  "parseCount text = parseInt (trim (remove_commas text))"

text \<open>
  One pass of the loop over the cells of the "Demand forecast" row: \<open>None\<close> when the cell
  is skipped (the label cell, or \<open>isNaN(num)\<close>), the number pushed otherwise.
\<close>

definition supply_cell :: "Cell \<Rightarrow> int option" where
  "supply_cell cell =
     (let cellText = trim (textContent cell) in
      if str_includes cellText ''Demand forecast'' then None
      else parseCount (valueText cell cellText))"

text \<open>
  One pass of the loop over the cells of a "Gross sales" row (lines 256 to 275): the
  number is pushed when \<open>!isNaN(num) && num >= 0\<close>.
\<close>

definition demand_cell :: "Cell \<Rightarrow> int option" where
  "demand_cell cell =
     (let cellText = trim (textContent cell) in
      if str_includes cellText ''Gross sales'' then None
      else (case parseInt (remove_commas (valueText cell cellText)) of
              None \<Rightarrow> None
            | Some num \<Rightarrow> if num \<ge> 0 then Some num else None))"

text \<open>The loop \<open>for (let c = 0; c < cells.length; c++)\<close> with its \<open>values.push(num)\<close>.\<close>

fun push_cells :: "(Cell \<Rightarrow> int option) \<Rightarrow> Cell list \<Rightarrow> int list \<Rightarrow> int list" where
  "push_cells f [] vs = vs"
| "push_cells f (cell # cells) vs =
     push_cells f cells (case f cell of None \<Rightarrow> vs | Some num \<Rightarrow> vs @ [num])"

text \<open>
  The cell filter that the architecture notes of the repository show for the first pass,
  which the test file no longer applies:
  \<^verbatim>\<open>
  if (!isNaN(num) && num >= 0 && num < 10000000) {
    if (num < 1900 || num > 2100 || num < 1000) { values.push(num); }
  }
  \<close>
\<close>

definition pass1_keep :: "int \<Rightarrow> bool" where
  "pass1_keep num = (num \<ge> 0 \<and> num < 10000000 \<and> (num < 1900 \<or> num > 2100 \<or> num < 1000))"

text \<open>
  \<open>extractSupplyValues\<close>, from the header labels of the table and the cells of its
  "Demand forecast" row: \<open>return { values, headers: headerLabels.slice(0, values.length) }\<close>.
\<close>

definition extractSupplyRow :: "string list \<Rightarrow> Cell list \<Rightarrow> SupplyData" where
  "extractSupplyRow headerLabels cells =
     (let vs = push_cells supply_cell cells [] in
      \<lparr>sd_values = vs, sd_headers = take (length vs) headerLabels\<rparr>)"

text \<open>
  The loop over the tables: the first table that holds a "Demand forecast" row gives the
  result, and \<open>return { values: [], headers: [] }\<close> is the result when none does. A table
  is given by the header labels found in it and the cells of that row, if it has one.
\<close>

fun extractSupplyValues :: "(string list \<times> Cell list option) list \<Rightarrow> SupplyData" where
  "extractSupplyValues [] = \<lparr>sd_values = [], sd_headers = []\<rparr>"
| "extractSupplyValues ((headerLabels, None) # tables) = extractSupplyValues tables"
| "extractSupplyValues ((headerLabels, Some cells) # tables) = extractSupplyRow headerLabels cells"

text \<open>
  One "Gross sales" row with its start year: the row is pushed to \<open>results\<close> when
  \<open>values.length > 0 && headerLabels.length > 0\<close>.
\<close>

definition extractGrossSalesRow :: "string list \<Rightarrow> int \<Rightarrow> Cell list \<Rightarrow> GrossSalesRow option" where
  "extractGrossSalesRow headerLabels yearStart cells =
     (let vs = push_cells demand_cell cells [] in
      if length vs > 0 \<and> length headerLabels > 0
      then Some \<lparr>year = yearStart, row_values = vs, headers = take (length vs) headerLabels\<rparr>
      else None)"

text \<open>
  The rows collected over all tables, in document order. A table is given by the header
  labels found in it and its accepted "Gross sales" rows, each with its start year.
\<close>

definition grossSalesRows :: "(string list \<times> (int \<times> Cell list) list) list \<Rightarrow> GrossSalesRow list" where
  "grossSalesRows tables =
     concat (map (\<lambda>(headerLabels, rows).
       List.map_filter (\<lambda>(yearStart, cells). extractGrossSalesRow headerLabels yearStart cells) rows)
       tables)"


section \<open>Stitching the rows\<close>

text \<open>\<open>xs.slice(-k)\<close> for \<open>k \<ge> 1\<close>: the start index is \<open>max(length - k, 0)\<close>.\<close>

definition slice_neg :: "nat \<Rightarrow> 'a list \<Rightarrow> 'a list" where
  "slice_neg k xs = drop (length xs - k) xs"

text \<open>
  \<open>prevEnd.every((month, idx) => month === currStart[idx])\<close>: an index past the end of
  \<open>currStart\<close> reads \<open>undefined\<close>, which no string equals.
\<close>

fun every_eq :: "string list \<Rightarrow> string list \<Rightarrow> bool" where
  "every_eq [] currStart = True"
| "every_eq (m # prevEnd) [] = False"
| "every_eq (m # prevEnd) (c # currStart) = (m = c \<and> every_eq prevEnd currStart)"

text \<open>
  \<^verbatim>\<open>
  let overlap = 0;
  for (let k = 1; k <= Math.min(3, rowLabels.length, allLabels.length); k++) {
    const prevEnd = allLabels.slice(-k);
    const currStart = rowLabels.slice(0, k);
    const matches = prevEnd.every((month, idx) => month === currStart[idx]);
    if (matches) { overlap = k; }
  }
  \<close>
\<close>

function overlap_loop :: "nat \<Rightarrow> string list \<Rightarrow> string list \<Rightarrow> nat \<Rightarrow> nat" where
  "overlap_loop k rowLabels allLabels overlap =
     (if k \<le> min 3 (min (length rowLabels) (length allLabels))
      then overlap_loop (Suc k) rowLabels allLabels
             (if every_eq (slice_neg k allLabels) (take k rowLabels) then k else overlap)
      else overlap)"
  by pat_completeness auto
termination
  by (relation "measure (\<lambda>(k, rowLabels, allLabels, overlap). 4 - k)") auto

declare overlap_loop.simps [simp del]

definition calc_overlap :: "string list \<Rightarrow> string list \<Rightarrow> nat" where
  "calc_overlap rowLabels allLabels = overlap_loop 1 rowLabels allLabels 0"

text \<open>
  The \<open>else\<close> branch of the stitching loop:
  \<^verbatim>\<open>
  allValues = allValues.concat(row.values.slice(overlap));
  allLabels = allLabels.concat(rowLabels.slice(overlap));
  \<close>
\<close>

definition append_row :: "DemandData \<Rightarrow> GrossSalesRow \<Rightarrow> DemandData" where
  "append_row acc row =
     (let rowLabels = headers row;
          overlap = calc_overlap rowLabels (dd_labels acc)
      in \<lparr>dd_labels = dd_labels acc @ drop overlap rowLabels,
          dd_values = dd_values acc @ drop overlap (row_values row)\<rparr>)"

text \<open>The loop \<open>for (let i = 0; i < grossSalesRows.length; i++)\<close>.\<close>

fun stitch_loop :: "nat \<Rightarrow> GrossSalesRow list \<Rightarrow> DemandData \<Rightarrow> DemandData" where
  "stitch_loop i [] acc = acc"
| "stitch_loop i (row # rows) acc =
     stitch_loop (Suc i) rows
       (if i = 0 then \<lparr>dd_labels = headers row, dd_values = row_values row\<rparr>
        else append_row acc row)"

text \<open>
  \<open>grossSalesRows.sort((a, b) => a.year - b.year)\<close>, a stable sort, then the loop from
  \<open>allValues = []\<close>, \<open>allLabels = []\<close>.
\<close>

definition stitch :: "GrossSalesRow list \<Rightarrow> DemandData" where
  "stitch rows = stitch_loop 0 (sort_key year rows) \<lparr>dd_labels = [], dd_values = []\<rparr>"

definition extractDemandData :: "(string list \<times> (int \<times> Cell list) list) list \<Rightarrow> DemandData" where
  "extractDemandData tables = stitch (grossSalesRows tables)"

text \<open>
  The overlaps that the loop selects at the boundaries of \<open>rows\<close>, in order, when it has
  accumulated \<open>allLabels\<close> before them; and their sum over a whole stitching.
\<close>

fun boundary_overlaps :: "GrossSalesRow list \<Rightarrow> string list \<Rightarrow> nat list" where
  "boundary_overlaps [] allLabels = []"
| "boundary_overlaps (row # rows) allLabels =
     calc_overlap (headers row) allLabels
       # boundary_overlaps rows (allLabels @ drop (calc_overlap (headers row) allLabels) (headers row))"

definition total_overlap :: "GrossSalesRow list \<Rightarrow> nat" where
  "total_overlap rows =
     (case sort_key year rows of
        [] \<Rightarrow> 0
      | row # rest \<Rightarrow> sum_list (boundary_overlaps rest (headers row)))"


section \<open>Alignment and comparison\<close>

text \<open>\<open>xs.indexOf(x)\<close>: the first index that holds \<open>x\<close>, or \<open>-1\<close>.\<close>

fun indexOf_from :: "nat \<Rightarrow> string list \<Rightarrow> string \<Rightarrow> int" where
  "indexOf_from i [] x = - 1"
| "indexOf_from i (y # ys) x = (if y = x then int i else indexOf_from (Suc i) ys x)"

definition indexOf :: "string list \<Rightarrow> string \<Rightarrow> int" where
  "indexOf xs x = indexOf_from 0 xs x"

text \<open>\<open>labelsSliced[i] || `Month ${i}`\<close>: a missing or empty label gives the default.\<close>

definition month_label :: "string list \<Rightarrow> nat \<Rightarrow> string" where
  "month_label labelsSliced i =
     (if i < length labelsSliced \<and> labelsSliced ! i \<noteq> [] then labelsSliced ! i
      else ''Month '' @ string_of_nat i)"

text \<open>
  \<^verbatim>\<open>
  for (let i = 0; i < compareLength; i++) {
    if (supplyValues[i] !== demandSliced[i]) {
      mismatches.push({ index: i, month: labelsSliced[i] || `Month ${i}`,
                        supply: supplyValues[i], demand: demandSliced[i] });
    }
  }
  \<close>
\<close>

function compare_loop ::
  "nat \<Rightarrow> nat \<Rightarrow> int list \<Rightarrow> int list \<Rightarrow> string list \<Rightarrow> Mismatch list \<Rightarrow> Mismatch list" where
  "compare_loop i compareLength supplyValues demandSliced labelsSliced ms =
     (if i < compareLength
      then compare_loop (Suc i) compareLength supplyValues demandSliced labelsSliced
             (if supplyValues ! i \<noteq> demandSliced ! i
              then ms @ [\<lparr>mm_index = i, mm_month = month_label labelsSliced i,
                          mm_supply = supplyValues ! i, mm_demand = demandSliced ! i\<rparr>]
              else ms)
      else ms)"
  by pat_completeness auto
termination
  by (relation "measure (\<lambda>(i, compareLength, s, d, l, ms). compareLength - i)") auto

declare compare_loop.simps [simp del]

text \<open>
  \<open>alignAndCompare\<close>; the current month, which the source reads from the clock, is an
  argument here. The \<open>throw\<close> is the \<open>Inl\<close> result.
\<close>

definition alignAndCompare ::
  "string \<Rightarrow> int list \<Rightarrow> string list \<Rightarrow> int list \<Rightarrow> error + AlignmentResult" where
  "alignAndCompare currentMonth supplyValues demandLabels demandValues =
     (let startIdx = indexOf demandLabels currentMonth in
      if startIdx = - 1 then Inl (PivotNotFound currentMonth demandLabels)
      else
        let demandSliced = drop (nat startIdx) demandValues;
            labelsSliced = drop (nat startIdx) demandLabels;
            compareLength = min (length supplyValues) (length demandSliced)
        in Inr \<lparr>mismatches =
                   compare_loop 0 compareLength supplyValues demandSliced labelsSliced [],
                 comparedCount = compareLength\<rparr>)"


section \<open>Classification by lock status\<close>

text \<open>
  The end of the test body:
  \<^verbatim>\<open>
  if (lockStatus.locked) {
    expect(result.mismatches, '...').toHaveLength(0);
  }
  // Unlocked forecasts: differences allowed (test passes)
  \<close>
\<close>

definition classify :: "bool \<Rightarrow> Mismatch list \<Rightarrow> verdict" where
  "classify locked ms =
     (if locked then (if length ms = 0 then Pass else Fail) else Pass)"


text \<open>
  The test body from its guard clauses on: every failed \<open>expect\<close> and the error thrown by
  \<open>alignAndCompare\<close> end the test as failed.
\<close>

definition test_body :: "string \<Rightarrow> bool \<Rightarrow> int list \<Rightarrow> DemandData \<Rightarrow> verdict" where
  "test_body currentMonth locked supplyValues demandData =
     (if \<not> length supplyValues > 0 then Fail
      else if \<not> length (dd_values demandData) > 10 then Fail
      else if length (dd_labels demandData) \<noteq> length (dd_values demandData) then Fail
      else if \<not> indexOf (dd_labels demandData) currentMonth \<ge> 0 then Fail
      else (case alignAndCompare currentMonth supplyValues (dd_labels demandData)
                   (dd_values demandData) of
              Inl e \<Rightarrow> Fail
            | Inr result \<Rightarrow>
                if \<not> comparedCount result \<ge> 12 then Fail
                else classify locked (mismatches result)))"


section \<open>Theorems\<close>

subsection \<open>Classification\<close>

text \<open>
  C1: a locked comparison with mismatches fails and a clean one passes, locked or not;
  an unlocked comparison with mismatches is to be set apart as advisory, recorded for
  review without failing the run. The repository's notes say the same (unlocked
  differences are logged as INVALID for analyst review), but the test body has no branch
  for the unlocked case: evaluated there, it passes exactly as a clean comparison does,
  with no outcome of its own.
\<close>

theorem classify_unlocked_mismatch_passes:
  "classify False [\<lparr>mm_index = 0, mm_month = ''DEC'', mm_supply = 564, mm_demand = 500\<rparr>] = Pass
   \<and> classify False [\<lparr>mm_index = 0, mm_month = ''DEC'', mm_supply = 564, mm_demand = 500\<rparr>]
       = classify False []
   \<and> test_body ''DEC'' False [564, 472, 278, 564, 310, 295, 410, 388, 215, 237, 500, 389]
        \<lparr>dd_labels = [''OCT'', ''NOV'', ''DEC'', ''JAN'', ''FEB'', ''MAR'', ''APR'', ''MAY'',
                       ''JUN'', ''JUL'', ''AUG'', ''SEP'', ''OCT'', ''NOV''],
          dd_values = [230, 463, 500, 472, 278, 564, 310, 295, 410, 388, 215, 237, 500, 389]\<rparr>
       = Pass"
  by code_simp


subsection \<open>Overlap detection and stitching\<close>

lemma every_eq_iff:
  "every_eq xs ys \<longleftrightarrow> length xs \<le> length ys \<and> xs = take (length xs) ys"
  by (induction xs ys rule: every_eq.induct) auto

lemma every_eq_slices:
  assumes "k \<le> length rowLabels" "k \<le> length allLabels"
  shows "every_eq (slice_neg k allLabels) (take k rowLabels)
         \<longleftrightarrow> drop (length allLabels - k) allLabels = take k rowLabels"
  using assms by (simp add: every_eq_iff slice_neg_def min_def)

lemma overlap_loop_props:
  assumes "overlap < k" "1 \<le> k"
  shows "(overlap_loop k rowLabels allLabels overlap = overlap
          \<or> (k \<le> overlap_loop k rowLabels allLabels overlap
              \<and> overlap_loop k rowLabels allLabels overlap \<le> min 3 (min (length rowLabels) (length allLabels))
              \<and> drop (length allLabels - overlap_loop k rowLabels allLabels overlap) allLabels
                  = take (overlap_loop k rowLabels allLabels overlap) rowLabels))
         \<and> (\<forall>j. k \<le> j \<and> j \<le> min 3 (min (length rowLabels) (length allLabels))
                 \<and> drop (length allLabels - j) allLabels = take j rowLabels
               \<longrightarrow> j \<le> overlap_loop k rowLabels allLabels overlap
                   \<and> overlap_loop k rowLabels allLabels overlap \<noteq> overlap)"
  using assms
proof (induction k rowLabels allLabels overlap rule: overlap_loop.induct)
  case (1 k rowLabels allLabels overlap)
  let ?M = "min 3 (min (length rowLabels) (length allLabels))"
  show ?case
  proof (cases "k \<le> ?M")
    case False
    then show ?thesis
      by (subst (1 2 3 4 5 6) overlap_loop.simps) auto
  next
    case True
    let ?ov = "if every_eq (slice_neg k allLabels) (take k rowLabels) then k else overlap"
    have step: "overlap_loop k rowLabels allLabels overlap = overlap_loop (Suc k) rowLabels allLabels ?ov"
      using True by (subst overlap_loop.simps) simp
    have m: "every_eq (slice_neg k allLabels) (take k rowLabels)
             \<longleftrightarrow> drop (length allLabels - k) allLabels = take k rowLabels"
      using True by (intro every_eq_slices) auto
    have lt: "?ov < Suc k" using "1.prems" by auto
    have IH: "(overlap_loop (Suc k) rowLabels allLabels ?ov = ?ov
          \<or> (Suc k \<le> overlap_loop (Suc k) rowLabels allLabels ?ov
              \<and> overlap_loop (Suc k) rowLabels allLabels ?ov \<le> ?M
              \<and> drop (length allLabels - overlap_loop (Suc k) rowLabels allLabels ?ov) allLabels
                  = take (overlap_loop (Suc k) rowLabels allLabels ?ov) rowLabels))
         \<and> (\<forall>j. Suc k \<le> j \<and> j \<le> ?M
                 \<and> drop (length allLabels - j) allLabels = take j rowLabels
               \<longrightarrow> j \<le> overlap_loop (Suc k) rowLabels allLabels ?ov
                   \<and> overlap_loop (Suc k) rowLabels allLabels ?ov \<noteq> ?ov)"
      using "1.IH"[OF True lt] by simp
    let ?r = "overlap_loop (Suc k) rowLabels allLabels ?ov"
    from IH have A: "?r = ?ov \<or> (Suc k \<le> ?r \<and> ?r \<le> ?M
        \<and> drop (length allLabels - ?r) allLabels = take ?r rowLabels)" by blast
    from IH have B: "\<And>j. Suc k \<le> j \<Longrightarrow> j \<le> ?M
        \<Longrightarrow> drop (length allLabels - j) allLabels = take j rowLabels \<Longrightarrow> j \<le> ?r \<and> ?r \<noteq> ?ov"
      by blast
    show ?thesis
    proof (cases "drop (length allLabels - k) allLabels = take k rowLabels")
      case mt: True
      then have ov: "?ov = k" using m by simp
      have kr: "k \<le> ?r" using A ov by auto
      have a: "k \<le> ?r \<and> ?r \<le> ?M \<and> drop (length allLabels - ?r) allLabels = take ?r rowLabels"
        using A True mt unfolding ov by auto
      have b: "j \<le> ?r \<and> ?r \<noteq> overlap"
        if "k \<le> j" "j \<le> ?M" "drop (length allLabels - j) allLabels = take j rowLabels" for j
      proof (cases "j = k")
        case True
        then show ?thesis using kr "1.prems" by auto
      next
        case False
        then have "Suc k \<le> j" using that by auto
        from B[OF this that(2,3)] show ?thesis using kr "1.prems" by auto
      qed
      show ?thesis unfolding step using a b by blast
    next
      case mf: False
      then have ov: "?ov = overlap" using m by simp
      have a: "?r = overlap \<or> (k \<le> ?r \<and> ?r \<le> ?M
          \<and> drop (length allLabels - ?r) allLabels = take ?r rowLabels)"
        using A unfolding ov by auto
      have b: "j \<le> ?r \<and> ?r \<noteq> overlap"
        if "k \<le> j" "j \<le> ?M" "drop (length allLabels - j) allLabels = take j rowLabels" for j
      proof -
        have "j \<noteq> k" using that mf by auto
        then have "Suc k \<le> j" using that by auto
        from B[OF this that(2,3)] show ?thesis unfolding ov by auto
      qed
      show ?thesis unfolding step using a b by blast
    qed
  qed
qed

lemma calc_overlap_spec:
  "(calc_overlap rowLabels allLabels = 0
      \<or> (1 \<le> calc_overlap rowLabels allLabels
          \<and> calc_overlap rowLabels allLabels \<le> min 3 (min (length rowLabels) (length allLabels))
          \<and> drop (length allLabels - calc_overlap rowLabels allLabels) allLabels
               = take (calc_overlap rowLabels allLabels) rowLabels))
   \<and> (\<forall>j. 1 \<le> j \<and> j \<le> min 3 (min (length rowLabels) (length allLabels))
           \<and> drop (length allLabels - j) allLabels = take j rowLabels
         \<longrightarrow> j \<le> calc_overlap rowLabels allLabels)"
proof -
  have "(0::nat) < 1" "(1::nat) \<le> 1" by simp_all
  from overlap_loop_props[OF this, of rowLabels allLabels]
  show ?thesis unfolding calc_overlap_def by blast
qed


lemma stitch_loop_Suc: "stitch_loop (Suc i) rows acc = foldl append_row acc rows"
  by (induction rows arbitrary: i acc) simp_all

lemma stitch_loop_0:
  "stitch_loop 0 (row # rows) acc
     = foldl append_row \<lparr>dd_labels = headers row, dd_values = row_values row\<rparr> rows"
  by (simp add: stitch_loop_Suc)

lemma calc_overlap_le: "calc_overlap rowLabels allLabels \<le> length rowLabels"
  using calc_overlap_spec[of rowLabels allLabels] by auto

lemma foldl_append_row_values:
  assumes "\<forall>r\<in>set rows. length (headers r) \<le> length (row_values r)"
  shows "length (dd_values (foldl append_row acc rows)) + sum_list (boundary_overlaps rows (dd_labels acc))
         = length (dd_values acc) + sum_list (map (\<lambda>r. length (row_values r)) rows)"
  using assms
proof (induction rows arbitrary: acc)
  case Nil
  then show ?case by simp
next
  case (Cons row rows)
  let ?ov = "calc_overlap (headers row) (dd_labels acc)"
  have le: "?ov \<le> length (row_values row)"
    using calc_overlap_le[of "headers row" "dd_labels acc"] Cons.prems by auto
  have lab: "dd_labels (append_row acc row) = dd_labels acc @ drop ?ov (headers row)"
    by (simp add: append_row_def Let_def)
  have val: "length (dd_values (append_row acc row)) = length (dd_values acc) + (length (row_values row) - ?ov)"
    by (simp add: append_row_def Let_def)
  have "length (dd_values (foldl append_row (append_row acc row) rows))
          + sum_list (boundary_overlaps rows (dd_labels (append_row acc row)))
        = length (dd_values (append_row acc row)) + sum_list (map (\<lambda>r. length (row_values r)) rows)"
    using Cons.IH[of "append_row acc row"] Cons.prems by simp
  then show ?case using le by (simp add: lab val)
qed

lemma sum_list_insort_key:
  "sum_list (map f (insort_key k x xs)) = f x + sum_list (map f xs)" for f :: "'a \<Rightarrow> nat"
  by (induction xs) simp_all

lemma sum_list_sort_key:
  "sum_list (map f (sort_key k xs)) = sum_list (map f xs)" for f :: "'a \<Rightarrow> nat"
  by (induction xs) (simp_all add: sort_key_def sum_list_insort_key)

lemma stitch_values_length:
  assumes "\<forall>r\<in>set rows. length (headers r) \<le> length (row_values r)"
  shows "length (dd_values (stitch rows)) + total_overlap rows
         = sum_list (map (\<lambda>r. length (row_values r)) rows)"
proof (cases "sort_key year rows")
  case Nil
  then have "rows = []" by (metis length_sort list.size(3) length_0_conv)
  then show ?thesis by (simp add: stitch_def total_overlap_def)
next
  case (Cons row rest)
  have "set rest \<subseteq> set rows" using Cons by (metis set_sort set_subset_Cons)
  then have wf: "\<forall>r\<in>set rest. length (headers r) \<le> length (row_values r)" using assms by auto
  have "sum_list (map (\<lambda>r. length (row_values r)) rows)
        = sum_list (map (\<lambda>r. length (row_values r)) (row # rest))"
    using sum_list_sort_key[of "\<lambda>r. length (row_values r)" year rows] Cons by simp
  then show ?thesis
    using foldl_append_row_values[OF wf, of "\<lparr>dd_labels = headers row, dd_values = row_values row\<rparr>"]
    by (simp add: stitch_def total_overlap_def Cons stitch_loop_Suc)
qed

lemma calc_overlap_no_match:
  assumes "\<forall>k\<in>{1, 2, 3}. \<not> (k \<le> length allLabels \<and> k \<le> length rowLabels
              \<and> drop (length allLabels - k) allLabels = take k rowLabels)"
  shows "calc_overlap rowLabels allLabels = 0"
proof (rule ccontr)
  assume nz: "calc_overlap rowLabels allLabels \<noteq> 0"
  let ?ov = "calc_overlap rowLabels allLabels"
  from calc_overlap_spec[of rowLabels allLabels] nz
  have p: "1 \<le> ?ov" "?ov \<le> 3" "?ov \<le> length rowLabels" "?ov \<le> length allLabels"
    "drop (length allLabels - ?ov) allLabels = take ?ov rowLabels"
    by auto
  from p(1,2) have "?ov \<in> {1, 2, 3}" by auto
  with assms p show False by blast
qed


text \<open>
  C3: the overlap that the loop selects is the largest \<open>k\<close> among 1, 2, 3 (within both
  lengths) for which the last \<open>k\<close> accumulated labels equal the first \<open>k\<close> labels of the
  next row: every matching \<open>k\<close> is at most the selected overlap, and the selected overlap
  is 0 or matches itself. In particular, when both \<open>k = 1\<close> and \<open>k = 2\<close> match, the
  overlap is at least 2: the scan does not stop at the first match.
\<close>

theorem calc_overlap_largest_match:
  "(\<forall>k. 1 \<le> k \<and> k \<le> 3 \<and> k \<le> length rowLabels \<and> k \<le> length allLabels
         \<and> drop (length allLabels - k) allLabels = take k rowLabels
       \<longrightarrow> k \<le> calc_overlap rowLabels allLabels)
   \<and> (calc_overlap rowLabels allLabels = 0
        \<or> (1 \<le> calc_overlap rowLabels allLabels \<and> calc_overlap rowLabels allLabels \<le> 3
            \<and> calc_overlap rowLabels allLabels \<le> length rowLabels
            \<and> calc_overlap rowLabels allLabels \<le> length allLabels
            \<and> drop (length allLabels - calc_overlap rowLabels allLabels) allLabels
                 = take (calc_overlap rowLabels allLabels) rowLabels))
   \<and> (2 \<le> length rowLabels \<and> 2 \<le> length allLabels
        \<and> drop (length allLabels - 1) allLabels = take 1 rowLabels
        \<and> drop (length allLabels - 2) allLabels = take 2 rowLabels
       \<longrightarrow> 2 \<le> calc_overlap rowLabels allLabels)"
proof -
  have a: "\<forall>k. 1 \<le> k \<and> k \<le> 3 \<and> k \<le> length rowLabels \<and> k \<le> length allLabels
         \<and> drop (length allLabels - k) allLabels = take k rowLabels
       \<longrightarrow> k \<le> calc_overlap rowLabels allLabels"
    using calc_overlap_spec[of rowLabels allLabels] by simp
  have b: "calc_overlap rowLabels allLabels = 0
        \<or> (1 \<le> calc_overlap rowLabels allLabels \<and> calc_overlap rowLabels allLabels \<le> 3
            \<and> calc_overlap rowLabels allLabels \<le> length rowLabels
            \<and> calc_overlap rowLabels allLabels \<le> length allLabels
            \<and> drop (length allLabels - calc_overlap rowLabels allLabels) allLabels
                 = take (calc_overlap rowLabels allLabels) rowLabels)"
    using calc_overlap_spec[of rowLabels allLabels] by simp
  have c: "2 \<le> length rowLabels \<and> 2 \<le> length allLabels
        \<and> drop (length allLabels - 1) allLabels = take 1 rowLabels
        \<and> drop (length allLabels - 2) allLabels = take 2 rowLabels
       \<longrightarrow> 2 \<le> calc_overlap rowLabels allLabels"
    using a by simp
  from a b c show ?thesis by blast
qed

theorem calc_overlap_largest_match_witness:
  "calc_overlap [''JAN'', ''JAN'', ''FEB''] [''DEC'', ''JAN'', ''JAN''] = 2"
proof -
  let ?row = "[''JAN'', ''JAN'', ''FEB'']" and ?all = "[''DEC'', ''JAN'', ''JAN'']"
  from calc_overlap_largest_match[of ?row ?all]
  have ge: "2 \<le> calc_overlap ?row ?all" by simp
  from calc_overlap_largest_match[of ?row ?all]
  have "calc_overlap ?row ?all = 0
        \<or> (calc_overlap ?row ?all \<le> 3
            \<and> drop (length ?all - calc_overlap ?row ?all) ?all = take (calc_overlap ?row ?all) ?row)"
    by blast
  with ge have le: "calc_overlap ?row ?all \<le> 3"
    and eq: "drop (length ?all - calc_overlap ?row ?all) ?all = take (calc_overlap ?row ?all) ?row"
    by auto
  have "calc_overlap ?row ?all \<noteq> 3"
  proof
    assume "calc_overlap ?row ?all = 3"
    with eq show False by simp
  qed
  with ge le show ?thesis by simp
qed

text \<open>
  C4: for rows as the extraction builds them (no more headers than values), whatever
  their order before the sort, the stitched value sequence is as long as the rows' value
  sequences together minus the overlaps removed at the boundaries; and at a boundary where
  none of \<open>k = 1, 2, 3\<close> matches, the overlap is 0 and the row is appended whole. The
  stitching is a total function: it has no error result.
\<close>

theorem stitch_length_minus_overlap:
  assumes "\<forall>r\<in>set rows. length (headers r) \<le> length (row_values r)"
  shows "total_overlap rows \<le> sum_list (map (\<lambda>r. length (row_values r)) rows)
     \<and> length (dd_values (stitch rows))
         = sum_list (map (\<lambda>r. length (row_values r)) rows) - total_overlap rows
     \<and> ((\<forall>k\<in>{1, 2, 3}. \<not> (k \<le> length (dd_labels acc) \<and> k \<le> length (headers row)
              \<and> drop (length (dd_labels acc) - k) (dd_labels acc) = take k (headers row)))
         \<longrightarrow> calc_overlap (headers row) (dd_labels acc) = 0
             \<and> append_row acc row
                 = \<lparr>dd_labels = dd_labels acc @ headers row,
                    dd_values = dd_values acc @ row_values row\<rparr>)"
proof -
  from stitch_values_length[OF assms]
  have a: "total_overlap rows \<le> sum_list (map (\<lambda>r. length (row_values r)) rows)"
    and b: "length (dd_values (stitch rows))
         = sum_list (map (\<lambda>r. length (row_values r)) rows) - total_overlap rows"
    by linarith+
  have c: "calc_overlap (headers row) (dd_labels acc) = 0
             \<and> append_row acc row
                 = \<lparr>dd_labels = dd_labels acc @ headers row,
                    dd_values = dd_values acc @ row_values row\<rparr>"
    if "\<forall>k\<in>{1, 2, 3}. \<not> (k \<le> length (dd_labels acc) \<and> k \<le> length (headers row)
              \<and> drop (length (dd_labels acc) - k) (dd_labels acc) = take k (headers row))"
    using calc_overlap_no_match[OF that] by (simp add: append_row_def)
  from a b c show ?thesis by blast
qed


theorem stitch_length_minus_overlap_witness:
  "length (dd_values (stitch
      [\<lparr>year = 2027, row_values = [500, 389, 307], headers = [''OCT'', ''NOV'', ''DEC'']\<rparr>,
       \<lparr>year = 2026, row_values = [215, 237, 500], headers = [''AUG'', ''SEP'', ''OCT'']\<rparr>])) = 5
   \<and> append_row \<lparr>dd_labels = [''AUG'', ''SEP''], dd_values = [215, 237]\<rparr>
        \<lparr>year = 2027, row_values = [500, 389], headers = [''OCT'', ''NOV'']\<rparr>
      = \<lparr>dd_labels = [''AUG'', ''SEP'', ''OCT'', ''NOV''], dd_values = [215, 237, 500, 389]\<rparr>"
proof -
  let ?rows = "[\<lparr>year = 2027, row_values = [500, 389, 307], headers = [''OCT'', ''NOV'', ''DEC'']\<rparr>,
       \<lparr>year = 2026, row_values = [215, 237, 500], headers = [''AUG'', ''SEP'', ''OCT'']\<rparr>]"
  let ?acc = "\<lparr>dd_labels = [''AUG'', ''SEP''], dd_values = [215, 237]\<rparr>"
  let ?row = "\<lparr>year = 2027, row_values = [500, 389], headers = [''OCT'', ''NOV'']\<rparr>"
  have wf: "\<forall>r\<in>set ?rows. length (headers r) \<le> length (row_values r)" by simp
  have ov: "total_overlap ?rows = 1" by code_simp
  have nm: "\<forall>k\<in>{1, 2, 3}. \<not> (k \<le> length (dd_labels ?acc) \<and> k \<le> length (headers ?row)
              \<and> drop (length (dd_labels ?acc) - k) (dd_labels ?acc) = take k (headers ?row))"
    by simp
  from stitch_length_minus_overlap[OF wf, of ?acc ?row] nm ov
  show ?thesis by simp
qed

text \<open>
  The selected overlap, written without the loop: the largest \<open>k\<close> among 1, 2, 3, within
  both lengths, whose \<open>k\<close> labels agree, and 0 when there is none.
\<close>

lemma overlap_is_Max:
  "calc_overlap rowLabels allLabels
     = Max (insert 0 {k. 1 \<le> k \<and> k \<le> 3 \<and> k \<le> length allLabels \<and> k \<le> length rowLabels
                        \<and> drop (length allLabels - k) allLabels = take k rowLabels})"
proof -
  let ?S = "{k. 1 \<le> k \<and> k \<le> 3 \<and> k \<le> length allLabels \<and> k \<le> length rowLabels
                        \<and> drop (length allLabels - k) allLabels = take k rowLabels}"
  let ?ov = "calc_overlap rowLabels allLabels"
  have fin: "finite (insert 0 ?S)" by simp
  have mem: "?ov \<in> insert 0 ?S"
    using calc_overlap_spec[of rowLabels allLabels] by auto
  have ub: "\<And>k. k \<in> insert 0 ?S \<Longrightarrow> k \<le> ?ov"
    using calc_overlap_spec[of rowLabels allLabels] by auto
  show ?thesis
    by (rule sym, rule Max_eqI[OF fin ub mem])
qed

text \<open>
  C10 (as stated): at every boundary where the last \<open>k\<close> accumulated labels equal the
  first \<open>k\<close> labels of the next row, the first \<open>k\<close> values of that row are discarded. The
  loop scans \<open>k = 1, 2, 3\<close> only: two rows that share four labels at the boundary, and
  match at no smaller \<open>k\<close>, are concatenated whole.
\<close>

theorem append_row_wide_match_counterexample:
  "drop (length [''JUN'', ''JUL'', ''AUG'', ''SEP'', ''OCT'', ''NOV''] - 4)
        [''JUN'', ''JUL'', ''AUG'', ''SEP'', ''OCT'', ''NOV'']
     = take 4 [''AUG'', ''SEP'', ''OCT'', ''NOV'', ''DEC'', ''JAN'']
   \<and> append_row
        \<lparr>dd_labels = [''JUN'', ''JUL'', ''AUG'', ''SEP'', ''OCT'', ''NOV''],
          dd_values = [410, 388, 215, 237, 500, 389]\<rparr>
        \<lparr>year = 2027, row_values = [215, 237, 500, 389, 307, 564],
          headers = [''AUG'', ''SEP'', ''OCT'', ''NOV'', ''DEC'', ''JAN'']\<rparr>
     = \<lparr>dd_labels = [''JUN'', ''JUL'', ''AUG'', ''SEP'', ''OCT'', ''NOV'',
                       ''AUG'', ''SEP'', ''OCT'', ''NOV'', ''DEC'', ''JAN''],
          dd_values = [410, 388, 215, 237, 500, 389, 215, 237, 500, 389, 307, 564]\<rparr>"
  by code_simp

text \<open>
  C10 (amended): the number of leading values of the next row that are discarded is the
  largest \<open>k\<close> among 1, 2, 3 (within both label counts) for which the last \<open>k\<close> accumulated
  labels equal the first \<open>k\<close> labels of the row, and 0 when no such \<open>k\<close> exists. The cut is
  fixed by the labels alone; the accumulated values are kept as they are and the values
  are never compared, so the discarded values may differ from the retained ones.
\<close>

theorem append_row_cut_by_labels:
  "append_row acc row
     = (let ov = Max (insert 0 {k. 1 \<le> k \<and> k \<le> 3
                                  \<and> k \<le> length (dd_labels acc) \<and> k \<le> length (headers row)
                                  \<and> drop (length (dd_labels acc) - k) (dd_labels acc)
                                       = take k (headers row)})
        in \<lparr>dd_labels = dd_labels acc @ drop ov (headers row),
            dd_values = dd_values acc @ drop ov (row_values row)\<rparr>)"
  by (simp add: append_row_def Let_def overlap_is_Max)

theorem append_row_cut_by_labels_witness:
  "append_row \<lparr>dd_labels = [''AUG'', ''SEP'', ''OCT''], dd_values = [215, 237, 500]\<rparr>
        \<lparr>year = 2027, row_values = [999, 389, 307], headers = [''OCT'', ''NOV'', ''DEC'']\<rparr>
      = \<lparr>dd_labels = [''AUG'', ''SEP'', ''OCT'', ''NOV'', ''DEC''],
         dd_values = [215, 237, 500, 389, 307]\<rparr>"
proof -
  let ?acc = "\<lparr>dd_labels = [''AUG'', ''SEP'', ''OCT''], dd_values = [215, 237, 500]\<rparr>"
  let ?row = "\<lparr>year = 2027, row_values = [999, 389, 307], headers = [''OCT'', ''NOV'', ''DEC'']\<rparr>"
  let ?S = "{k. 1 \<le> k \<and> k \<le> 3
                \<and> k \<le> length (dd_labels ?acc) \<and> k \<le> length (headers ?row)
                \<and> drop (length (dd_labels ?acc) - k) (dd_labels ?acc) = take k (headers ?row)}"
  have S: "?S = {1}"
  proof (rule set_eqI)
    fix k :: nat
    have "k = 0 \<or> k = 1 \<or> k = 2 \<or> k = 3 \<or> 3 < k" by arith
    then show "k \<in> ?S \<longleftrightarrow> k \<in> {1}"
      by (elim disjE) simp_all
  qed
  have m: "Max (insert 0 ?S) = 1" unfolding S by simp
  show ?thesis
    using append_row_cut_by_labels[of ?acc ?row] unfolding m Let_def by simp
qed


subsection \<open>Alignment and comparison\<close>

lemma indexOf_from_absent: "x \<notin> set xs \<Longrightarrow> indexOf_from i xs x = - 1"
  by (induction xs arbitrary: i) auto

lemma indexOf_from_present:
  "x \<in> set xs \<Longrightarrow> indexOf_from i xs x = int (i + length (takeWhile (\<lambda>y. y \<noteq> x) xs))"
  by (induction xs arbitrary: i) auto

lemma indexOf_absent: "x \<notin> set xs \<Longrightarrow> indexOf xs x = - 1"
  by (simp add: indexOf_def indexOf_from_absent)

lemma indexOf_present:
  "x \<in> set xs \<Longrightarrow> indexOf xs x = int (length (takeWhile (\<lambda>y. y \<noteq> x) xs))"
  by (simp add: indexOf_def indexOf_from_present)


text \<open>
  C5: when the current month occurs in the demand labels, \<open>indexOf\<close> returns the lowest
  index that holds it (no earlier label equals it), also when it occurs again later, and
  both demand sequences are sliced from that index.
\<close>

theorem alignAndCompare_first_occurrence:
  assumes "currentMonth \<in> set demandLabels"
  shows "length (takeWhile (\<lambda>l. l \<noteq> currentMonth) demandLabels) < length demandLabels
     \<and> demandLabels ! length (takeWhile (\<lambda>l. l \<noteq> currentMonth) demandLabels) = currentMonth
     \<and> (\<forall>q < length (takeWhile (\<lambda>l. l \<noteq> currentMonth) demandLabels). demandLabels ! q \<noteq> currentMonth)
     \<and> indexOf demandLabels currentMonth = int (length (takeWhile (\<lambda>l. l \<noteq> currentMonth) demandLabels))
     \<and> alignAndCompare currentMonth supplyValues demandLabels demandValues
         = Inr \<lparr>mismatches =
                  compare_loop 0
                    (min (length supplyValues)
                       (length (drop (length (takeWhile (\<lambda>l. l \<noteq> currentMonth) demandLabels)) demandValues)))
                    supplyValues
                    (drop (length (takeWhile (\<lambda>l. l \<noteq> currentMonth) demandLabels)) demandValues)
                    (drop (length (takeWhile (\<lambda>l. l \<noteq> currentMonth) demandLabels)) demandLabels) [],
                comparedCount =
                  min (length supplyValues)
                    (length (drop (length (takeWhile (\<lambda>l. l \<noteq> currentMonth) demandLabels)) demandValues))\<rparr>"
proof -
  let ?p = "length (takeWhile (\<lambda>l. l \<noteq> currentMonth) demandLabels)"
  have lt: "?p < length demandLabels"
  proof (rule ccontr)
    assume "\<not> ?p < length demandLabels"
    then have "?p = length demandLabels"
      using length_takeWhile_le[of "\<lambda>l. l \<noteq> currentMonth" demandLabels] by simp
    then have "takeWhile (\<lambda>l. l \<noteq> currentMonth) demandLabels = demandLabels"
      by (metis takeWhile_eq_take take_all order_refl)
    then have "\<forall>l\<in>set demandLabels. l \<noteq> currentMonth"
      by (simp add: takeWhile_eq_all_conv)
    with assms show False by blast
  qed
  have at: "demandLabels ! ?p = currentMonth"
    using nth_length_takeWhile[OF lt] by simp
  have before: "\<forall>q < ?p. demandLabels ! q \<noteq> currentMonth"
  proof (intro allI impI)
    fix q assume q: "q < ?p"
    then have "takeWhile (\<lambda>l. l \<noteq> currentMonth) demandLabels ! q = demandLabels ! q"
      by (rule takeWhile_nth)
    moreover have "takeWhile (\<lambda>l. l \<noteq> currentMonth) demandLabels ! q
                     \<in> set (takeWhile (\<lambda>l. l \<noteq> currentMonth) demandLabels)"
      using q by simp
    ultimately show "demandLabels ! q \<noteq> currentMonth"
      using set_takeWhileD by fastforce
  qed
  have idx: "indexOf demandLabels currentMonth = int ?p"
    using assms by (rule indexOf_present)
  have res: "alignAndCompare currentMonth supplyValues demandLabels demandValues
         = Inr \<lparr>mismatches =
                  compare_loop 0 (min (length supplyValues) (length (drop ?p demandValues)))
                    supplyValues (drop ?p demandValues) (drop ?p demandLabels) [],
                comparedCount = min (length supplyValues) (length (drop ?p demandValues))\<rparr>"
    unfolding alignAndCompare_def idx by (simp add: Let_def)
  from lt at before idx res show ?thesis by blast
qed

theorem alignAndCompare_first_occurrence_witness:
  "indexOf [''OCT'', ''NOV'', ''DEC'', ''JAN'', ''FEB'', ''DEC'', ''JAN''] ''DEC'' = 2
   \<and> alignAndCompare ''DEC'' [307, 1] [''OCT'', ''NOV'', ''DEC'', ''JAN'', ''FEB'', ''DEC'', ''JAN'']
        [230, 463, 307, 564, 472, 278, 9]
      = Inr \<lparr>mismatches = [\<lparr>mm_index = 1, mm_month = ''JAN'', mm_supply = 1, mm_demand = 564\<rparr>],
             comparedCount = 2\<rparr>"
proof -
  let ?labels = "[''OCT'', ''NOV'', ''DEC'', ''JAN'', ''FEB'', ''DEC'', ''JAN'']"
  let ?svals = "[307, 1] :: int list"
  let ?dvals = "[230, 463, 307, 564, 472, 278, 9] :: int list"
  let ?p = "length (takeWhile (\<lambda>l. l \<noteq> ''DEC'') ?labels)"
  let ?n = "min (length ?svals) (length (drop ?p ?dvals))"
  have h: "''DEC'' \<in> set ?labels" by simp
  have p: "?p = 2" by simp
  note t = alignAndCompare_first_occurrence[OF h, of ?svals ?dvals]
  from t have i: "indexOf ?labels ''DEC'' = int ?p" by blast
  from t have e: "alignAndCompare ''DEC'' ?svals ?labels ?dvals
      = Inr \<lparr>mismatches = compare_loop 0 ?n ?svals (drop ?p ?dvals) (drop ?p ?labels) [],
             comparedCount = ?n\<rparr>"
    by blast
  have r: "Inr \<lparr>mismatches = compare_loop 0 ?n ?svals (drop ?p ?dvals) (drop ?p ?labels) [],
             comparedCount = ?n\<rparr>
      = (Inr \<lparr>mismatches = [\<lparr>mm_index = 1, mm_month = ''JAN'', mm_supply = 1, mm_demand = 564\<rparr>],
             comparedCount = 2\<rparr> :: error + AlignmentResult)"
    by code_simp
  from i p have "indexOf ?labels ''DEC'' = 2" by simp
  moreover from e r have "alignAndCompare ''DEC'' ?svals ?labels ?dvals
      = Inr \<lparr>mismatches = [\<lparr>mm_index = 1, mm_month = ''JAN'', mm_supply = 1, mm_demand = 564\<rparr>],
             comparedCount = 2\<rparr>"
    by (rule trans)
  ultimately show ?thesis by blast
qed

text \<open>
  C6: when the current month is absent from the demand labels, \<open>alignAndCompare\<close> throws:
  its result is the error, not a comparison from some default index; and the test that
  runs on such a series fails.
\<close>

theorem alignAndCompare_pivot_absent:
  assumes "currentMonth \<notin> set demandLabels"
  shows "alignAndCompare currentMonth supplyValues demandLabels demandValues
           = Inl (PivotNotFound currentMonth demandLabels)
     \<and> test_body currentMonth locked supplyValues
          \<lparr>dd_labels = demandLabels, dd_values = demandValues\<rparr> = Fail"
  using indexOf_absent[OF assms]
  by (simp add: alignAndCompare_def test_body_def)

theorem alignAndCompare_pivot_absent_witness:
  "alignAndCompare ''FEB'' [1, 2] [''OCT'', ''NOV'', ''DEC''] [1, 2, 3]
     = Inl (PivotNotFound ''FEB'' [''OCT'', ''NOV'', ''DEC''])
   \<and> test_body ''FEB'' False [1, 2]
        \<lparr>dd_labels = [''OCT'', ''NOV'', ''DEC''], dd_values = [1, 2, 3]\<rparr> = Fail"
proof -
  have h: "''FEB'' \<notin> set [''OCT'', ''NOV'', ''DEC'']" by simp
  from alignAndCompare_pivot_absent[OF h] show ?thesis by blast
qed






subsection \<open>Parsing and filtering cell values\<close>

lemma trimStart_trim: "trimStart (trim s) = trim s"
proof -
  let ?t = "dropWhile is_ws s"
  let ?u = "rev (dropWhile is_ws (rev ?t))"
  have split: "?t = ?u @ rev (takeWhile is_ws (rev ?t))"
    by (metis rev_append rev_rev_ident takeWhile_dropWhile_id)
  have key: "dropWhile is_ws ?u = ?u"
  proof (cases "?u = []")
    case True
    then show ?thesis by (metis dropWhile.simps(1))
  next
    case False
    then have "hd ?u = hd ?t" using split by (metis hd_append2)
    moreover have "?t \<noteq> []"
    proof
      assume e: "?t = []"
      have "?u = []" unfolding e by simp
      with False show False by contradiction
    qed
    then have "\<not> is_ws (hd ?t)" by (rule hd_dropWhile)
    ultimately show ?thesis
      using False by (simp only: dropWhile_eq_self_iff) simp
  qed
  show ?thesis unfolding trimStart_def trim_def by (rule key)
qed

lemma takeWhile_Nil_hd: "takeWhile P xs = [] \<longleftrightarrow> xs = [] \<or> \<not> P (hd xs)"
  by (cases xs) auto

lemma parseInt_None_iff:
  "parseInt S = None \<longleftrightarrow>
     (let s = trimStart S;
          u = (if s \<noteq> [] \<and> (hd s = CHR ''+'' \<or> hd s = CHR ''-'') then tl s else s)
      in if take 2 u = ''0x'' \<or> take 2 u = ''0X''
         then drop 2 u = [] \<or> \<not> is_digit 16 (hd (drop 2 u))
         else u = [] \<or> \<not> is_digit 10 (hd u))"
  by (simp add: parseInt_def Let_def takeWhile_Nil_hd)

lemma remove_commas_idem: "remove_commas (remove_commas s) = remove_commas s"
  by (simp add: remove_commas_def)

text \<open>
  C9 (as stated): every input whose content is not numeric after stripping gives
  \<open>NaN\<close>. \<open>parseInt\<close> reads the longest numeric prefix and ignores what follows it, so
  \<open>12abc\<close> gives 12.
\<close>

theorem parseCount_trailing_text_counterexample:
  "parseCount ''12abc'' = Some 12"
  by (simp add: parseCount_def parseInt_def trim_def trimStart_def remove_commas_def
      is_ws_def is_digit_def digit_value_def)

text \<open>
  C9 (amended): commas are removed and white space is trimmed before parsing, so
  \<open>1,234\<close> and \<open>1234\<close> both give 1234, and removing the commas beforehand changes
  nothing. The result is \<open>NaN\<close> on the empty string, on \<open>abc\<close>, and exactly on the texts that
  after stripping do not start with a digit behind an optional sign (a hexadecimal digit
  behind \<open>0x\<close> or \<open>0X\<close>); what follows a leading numeral is ignored.
\<close>

theorem parseCount_leading_numeral:
  "parseCount ''1,234'' = Some 1234 \<and> parseCount ''1234'' = Some 1234
   \<and> parseCount [] = None \<and> parseCount ''abc'' = None
   \<and> parseCount (remove_commas text) = parseCount text
   \<and> (parseCount text = None \<longleftrightarrow>
        (let s = trim (remove_commas text);
             u = (if s \<noteq> [] \<and> (hd s = CHR ''+'' \<or> hd s = CHR ''-'') then tl s else s)
         in if take 2 u = ''0x'' \<or> take 2 u = ''0X''
            then drop 2 u = [] \<or> \<not> is_digit 16 (hd (drop 2 u))
            else u = [] \<or> \<not> is_digit 10 (hd u)))"
proof -
  have a: "parseCount ''1,234'' = Some 1234"
    by (simp add: parseCount_def parseInt_def trim_def trimStart_def remove_commas_def
        is_ws_def is_digit_def digit_value_def)
  have b: "parseCount ''1234'' = Some 1234"
    by (simp add: parseCount_def parseInt_def trim_def trimStart_def remove_commas_def
        is_ws_def is_digit_def digit_value_def)
  have c: "parseCount [] = None"
    by (simp add: parseCount_def parseInt_def trim_def trimStart_def remove_commas_def)
  have d: "parseCount ''abc'' = None"
    by (simp add: parseCount_def parseInt_def trim_def trimStart_def remove_commas_def
        is_ws_def is_digit_def digit_value_def)
  have e: "parseCount (remove_commas text) = parseCount text"
    by (simp add: parseCount_def remove_commas_idem)
  have f: "parseCount text = None \<longleftrightarrow>
        (let s = trim (remove_commas text);
             u = (if s \<noteq> [] \<and> (hd s = CHR ''+'' \<or> hd s = CHR ''-'') then tl s else s)
         in if take 2 u = ''0x'' \<or> take 2 u = ''0X''
            then drop 2 u = [] \<or> \<not> is_digit 16 (hd (drop 2 u))
            else u = [] \<or> \<not> is_digit 10 (hd u))"
    unfolding parseCount_def parseInt_None_iff trimStart_trim ..
  from a b c d e f show ?thesis by blast
qed

theorem parseCount_leading_numeral_witness:
  "parseCount '' -x1 '' = None \<and> parseCount ''0x'' = None \<and> parseCount ''7 units'' \<noteq> None"
proof -
  have a: "parseCount '' -x1 '' = None"
    using parseCount_leading_numeral[of "'' -x1 ''"]
    by (simp add: trim_def remove_commas_def is_ws_def is_digit_def digit_value_def)
  have b: "parseCount ''0x'' = None"
    using parseCount_leading_numeral[of "''0x''"]
    by (simp add: trim_def remove_commas_def is_ws_def is_digit_def digit_value_def)
  have c: "parseCount ''7 units'' \<noteq> None"
    using parseCount_leading_numeral[of "''7 units''"]
    by (simp add: trim_def remove_commas_def is_ws_def is_digit_def digit_value_def)
  from a b c show ?thesis by blast
qed

lemma push_cells_map_filter: "push_cells f cells vs = vs @ List.map_filter f cells"
  by (induction cells arbitrary: vs) (simp_all add: List.map_filter_simps split: option.split)

lemma map_filter_nonneg:
  "List.map_filter (\<lambda>c. case g c of None \<Rightarrow> None
                          | Some (num :: int) \<Rightarrow> if num \<ge> 0 then Some num else None) cells
     = filter (\<lambda>num. num \<ge> 0) (List.map_filter g cells)"
  by (induction cells) (simp_all add: List.map_filter_simps split: option.split)

text \<open>
  C2 (as stated): the demand-side extraction drops calendar years. The loop over the cells
  of a "Gross sales" row keeps every parsed number that is not negative: the cells 230 and
  1950 give two values, and 2026 is kept. (The filter shown in the architecture notes,
  \<open>pass1_keep\<close>, would drop 1950 and 2026.)
\<close>

theorem demand_cells_year_counterexample:
  "push_cells demand_cell
     [\<lparr>textContent = ''230'', input_value = None\<rparr>,
      \<lparr>textContent = ''1950'', input_value = None\<rparr>] [] = [230, 1950]
   \<and> push_cells demand_cell [\<lparr>textContent = ''2026'', input_value = None\<rparr>] [] = [2026]
   \<and> pass1_keep 230 \<and> \<not> pass1_keep 1950 \<and> \<not> pass1_keep 2026"
  by (simp add: demand_cell_def valueText_def parseInt_def trim_def trimStart_def
      remove_commas_def is_ws_def is_digit_def digit_value_def pass1_keep_def)

text \<open>
  C2 (amended): the values of a "Gross sales" row are the numbers parsed from its data
  cells (the cells whose text does not include the row label), in cell order, that are at
  least 0, and no others: there is no upper bound and no exclusion of calendar years, so
  230, 1950 and 2026 are all kept.
\<close>

theorem demand_cells_keep_nonnegative:
  "push_cells demand_cell cells []
     = filter (\<lambda>num. num \<ge> 0)
         (List.map_filter
            (\<lambda>cell. if str_includes (trim (textContent cell)) ''Gross sales'' then None
                    else parseInt (remove_commas (valueText cell (trim (textContent cell)))))
            cells)"
proof -
  have dc: "demand_cell
          = (\<lambda>c. case (if str_includes (trim (textContent c)) ''Gross sales'' then None
                        else parseInt (remove_commas (valueText c (trim (textContent c))))) of
                    None \<Rightarrow> None
                  | Some num \<Rightarrow> if num \<ge> 0 then Some num else None)"
    by (rule ext) (simp add: demand_cell_def Let_def)
  show ?thesis
    unfolding push_cells_map_filter append_Nil
    by (subst dc) (rule map_filter_nonneg)
qed

theorem demand_cells_keep_nonnegative_witness:
  "push_cells demand_cell
     [\<lparr>textContent = ''Gross sales [2026-2027]'', input_value = None\<rparr>,
      \<lparr>textContent = '' 230 '', input_value = None\<rparr>,
      \<lparr>textContent = ''-5'', input_value = None\<rparr>,
      \<lparr>textContent = ''n/a'', input_value = Some ''2,026''\<rparr>] [] = [230, 2026]"
proof -
  let ?cells = "[\<lparr>textContent = ''Gross sales [2026-2027]'', input_value = None\<rparr>,
      \<lparr>textContent = '' 230 '', input_value = None\<rparr>,
      \<lparr>textContent = ''-5'', input_value = None\<rparr>,
      \<lparr>textContent = ''n/a'', input_value = Some ''2,026''\<rparr>]"
  have "filter (\<lambda>num. num \<ge> 0)
         (List.map_filter
            (\<lambda>cell. if str_includes (trim (textContent cell)) ''Gross sales'' then None
                    else parseInt (remove_commas (valueText cell (trim (textContent cell)))))
            ?cells) = [230, 2026]"
    by code_simp
  with demand_cells_keep_nonnegative[of ?cells] show ?thesis by (rule trans)
qed

subsection \<open>Label and value counts\<close>

lemma extractGrossSalesRow_headers:
  assumes "extractGrossSalesRow headerLabels yearStart cells = Some r"
  shows "headers r = take (length (row_values r)) headerLabels"
  using assms by (auto simp: extractGrossSalesRow_def Let_def split: if_splits)

lemma in_set_map_filter:
  "y \<in> set (List.map_filter f xs) \<longleftrightarrow> (\<exists>x\<in>set xs. f x = Some y)"
  by (induction xs) (auto simp: List.map_filter_simps split: option.splits)

lemma grossSalesRows_headers_le:
  assumes "r \<in> set (grossSalesRows tables)"
  shows "length (headers r) \<le> length (row_values r)"
proof -
  from assms obtain headerLabels yearStart cells
    where "extractGrossSalesRow headerLabels yearStart cells = Some r"
    by (auto simp: grossSalesRows_def in_set_map_filter)
  from extractGrossSalesRow_headers[OF this] show ?thesis by simp
qed

lemma foldl_append_row_le:
  assumes "\<forall>r\<in>set rows. length (headers r) \<le> length (row_values r)"
    and "length (dd_labels acc) \<le> length (dd_values acc)"
  shows "length (dd_labels (foldl append_row acc rows))
           \<le> length (dd_values (foldl append_row acc rows))"
  using assms
proof (induction rows arbitrary: acc)
  case Nil
  then show ?case by simp
next
  case (Cons row rows)
  have "length (headers row) - calc_overlap (headers row) (dd_labels acc)
          \<le> length (row_values row) - calc_overlap (headers row) (dd_labels acc)"
    using Cons.prems by (simp add: diff_le_mono)
  then have "length (dd_labels (append_row acc row)) \<le> length (dd_values (append_row acc row))"
    using Cons.prems by (simp add: append_row_def Let_def add_mono)
  with Cons show ?case by simp
qed

lemma foldl_append_row_eq:
  assumes "\<forall>r\<in>set rows. length (headers r) = length (row_values r)"
    and "length (dd_labels acc) = length (dd_values acc)"
  shows "length (dd_labels (foldl append_row acc rows))
           = length (dd_values (foldl append_row acc rows))"
  using assms
proof (induction rows arbitrary: acc)
  case Nil
  then show ?case by simp
next
  case (Cons row rows)
  have "length (dd_labels (append_row acc row)) = length (dd_values (append_row acc row))"
    using Cons.prems by (simp add: append_row_def Let_def)
  with Cons show ?case by simp
qed

lemma stitch_labels_le:
  assumes "\<forall>r\<in>set rows. length (headers r) \<le> length (row_values r)"
  shows "length (dd_labels (stitch rows)) \<le> length (dd_values (stitch rows))"
proof (cases "sort_key year rows")
  case Nil
  then show ?thesis by (simp add: stitch_def)
next
  case (Cons row rest)
  have "set (row # rest) = set rows" using Cons by (metis set_sort)
  with assms have "\<forall>r\<in>set rest. length (headers r) \<le> length (row_values r)"
    and "length (headers row) \<le> length (row_values row)" by auto
  then show ?thesis
    using foldl_append_row_le[of rest "\<lparr>dd_labels = headers row, dd_values = row_values row\<rparr>"]
    by (simp add: stitch_def Cons stitch_loop_Suc)
qed

lemma stitch_labels_eq:
  assumes "\<forall>r\<in>set rows. length (headers r) = length (row_values r)"
  shows "length (dd_labels (stitch rows)) = length (dd_values (stitch rows))"
proof (cases "sort_key year rows")
  case Nil
  then show ?thesis by (simp add: stitch_def)
next
  case (Cons row rest)
  have "set (row # rest) = set rows" using Cons by (metis set_sort)
  with assms have "\<forall>r\<in>set rest. length (headers r) = length (row_values r)"
    and "length (headers row) = length (row_values row)" by auto
  then show ?thesis
    using foldl_append_row_eq[of rest "\<lparr>dd_labels = headers row, dd_values = row_values row\<rparr>"]
    by (simp add: stitch_def Cons stitch_loop_Suc)
qed

text \<open>
  C8 (as stated): every extracted series has as many labels as values. A row with more
  values than the table has header labels keeps all its values and gets only the labels
  there are: six header labels and seven data cells give a row, and a stitched series,
  of six labels and seven values.
\<close>

theorem labels_values_counterexample:
  "extractDemandData
     [([''OCT'', ''NOV'', ''DEC'', ''JAN'', ''FEB'', ''MAR''],
       [(2026, [\<lparr>textContent = ''Gross sales [2026-2027]'', input_value = None\<rparr>,
                \<lparr>textContent = ''230'', input_value = None\<rparr>,
                \<lparr>textContent = ''463'', input_value = None\<rparr>,
                \<lparr>textContent = ''1124'', input_value = None\<rparr>,
                \<lparr>textContent = ''564'', input_value = None\<rparr>,
                \<lparr>textContent = ''472'', input_value = None\<rparr>,
                \<lparr>textContent = ''278'', input_value = None\<rparr>,
                \<lparr>textContent = ''3131'', input_value = None\<rparr>])])]
   = \<lparr>dd_labels = [''OCT'', ''NOV'', ''DEC'', ''JAN'', ''FEB'', ''MAR''],
      dd_values = [230, 463, 1124, 564, 472, 278, 3131]\<rparr>"
  by code_simp

text \<open>
  C8 (amended): a per-row extract, supply or demand, has as many labels as the smaller of
  the number of header labels and the number of values, so never more labels than values;
  the stitched series has at most as many labels as values, and as many when every row
  extract has; the test body checks that equality on the stitched series and fails when
  it does not hold.
\<close>

theorem labels_at_most_values:
  "length (sd_headers (extractSupplyRow headerLabels cells))
     = min (length headerLabels) (length (sd_values (extractSupplyRow headerLabels cells)))
   \<and> length (sd_headers (extractSupplyValues supplyTables))
       \<le> length (sd_values (extractSupplyValues supplyTables))
   \<and> (\<forall>r. extractGrossSalesRow headerLabels yearStart cells = Some r
          \<longrightarrow> length (headers r) = min (length headerLabels) (length (row_values r)))
   \<and> length (dd_labels (extractDemandData tables)) \<le> length (dd_values (extractDemandData tables))
   \<and> ((\<forall>r\<in>set (grossSalesRows tables). length (headers r) = length (row_values r))
        \<longrightarrow> length (dd_labels (extractDemandData tables))
              = length (dd_values (extractDemandData tables)))
   \<and> (length (dd_labels (extractDemandData tables)) \<noteq> length (dd_values (extractDemandData tables))
        \<longrightarrow> test_body currentMonth locked supplyValues (extractDemandData tables) = Fail)"
proof -
  have a: "length (sd_headers (extractSupplyRow headerLabels cells))
     = min (length headerLabels) (length (sd_values (extractSupplyRow headerLabels cells)))"
    by (simp add: extractSupplyRow_def Let_def min.commute)
  have b: "\<forall>r. extractGrossSalesRow headerLabels yearStart cells = Some r
          \<longrightarrow> length (headers r) = min (length headerLabels) (length (row_values r))"
    using extractGrossSalesRow_headers by (simp add: min.commute)
  have s: "length (sd_headers (extractSupplyValues supplyTables))
       \<le> length (sd_values (extractSupplyValues supplyTables))"
    by (induction supplyTables rule: extractSupplyValues.induct)
       (simp_all add: extractSupplyRow_def Let_def)
  have c: "length (dd_labels (extractDemandData tables)) \<le> length (dd_values (extractDemandData tables))"
    unfolding extractDemandData_def
    by (rule stitch_labels_le) (simp add: grossSalesRows_headers_le)
  have d: "(\<forall>r\<in>set (grossSalesRows tables). length (headers r) = length (row_values r))
        \<longrightarrow> length (dd_labels (extractDemandData tables))
              = length (dd_values (extractDemandData tables))"
    unfolding extractDemandData_def using stitch_labels_eq by blast
  have e: "length (dd_labels (extractDemandData tables)) \<noteq> length (dd_values (extractDemandData tables))
        \<longrightarrow> test_body currentMonth locked supplyValues (extractDemandData tables) = Fail"
    by (simp add: test_body_def)
  from a s b c d e show ?thesis by blast
qed

theorem labels_at_most_values_witness:
  "length (dd_labels (extractDemandData
      [([''OCT'', ''NOV'', ''DEC'', ''JAN'', ''FEB'', ''MAR''],
        [(2026, [\<lparr>textContent = ''Gross sales [2026-2027]'', input_value = None\<rparr>,
                 \<lparr>textContent = ''230'', input_value = None\<rparr>,
                 \<lparr>textContent = ''463'', input_value = Some ''1,124''\<rparr>])])]))
   = length (dd_values (extractDemandData
      [([''OCT'', ''NOV'', ''DEC'', ''JAN'', ''FEB'', ''MAR''],
        [(2026, [\<lparr>textContent = ''Gross sales [2026-2027]'', input_value = None\<rparr>,
                 \<lparr>textContent = ''230'', input_value = None\<rparr>,
                 \<lparr>textContent = ''463'', input_value = Some ''1,124''\<rparr>])])]))
   \<and> test_body ''DEC'' True [564]
        (extractDemandData
          [([''OCT'', ''NOV'', ''DEC'', ''JAN'', ''FEB'', ''MAR''],
            [(2026, [\<lparr>textContent = ''230'', input_value = None\<rparr>,
                     \<lparr>textContent = ''463'', input_value = None\<rparr>,
                     \<lparr>textContent = ''1124'', input_value = None\<rparr>,
                     \<lparr>textContent = ''564'', input_value = None\<rparr>,
                     \<lparr>textContent = ''472'', input_value = None\<rparr>,
                     \<lparr>textContent = ''278'', input_value = None\<rparr>,
                     \<lparr>textContent = ''3131'', input_value = None\<rparr>])])]) = Fail"
proof -
  let ?T1 = "[([''OCT'', ''NOV'', ''DEC'', ''JAN'', ''FEB'', ''MAR''],
        [(2026 :: int, [\<lparr>textContent = ''Gross sales [2026-2027]'', input_value = None\<rparr>,
                 \<lparr>textContent = ''230'', input_value = None\<rparr>,
                 \<lparr>textContent = ''463'', input_value = Some ''1,124''\<rparr>])])]"
  let ?T2 = "[([''OCT'', ''NOV'', ''DEC'', ''JAN'', ''FEB'', ''MAR''],
            [(2026 :: int, [\<lparr>textContent = ''230'', input_value = None\<rparr>,
                     \<lparr>textContent = ''463'', input_value = None\<rparr>,
                     \<lparr>textContent = ''1124'', input_value = None\<rparr>,
                     \<lparr>textContent = ''564'', input_value = None\<rparr>,
                     \<lparr>textContent = ''472'', input_value = None\<rparr>,
                     \<lparr>textContent = ''278'', input_value = None\<rparr>,
                     \<lparr>textContent = ''3131'', input_value = None\<rparr>])])]"
  have h1: "\<forall>r\<in>set (grossSalesRows ?T1). length (headers r) = length (row_values r)"
    by code_simp
  have h2: "length (dd_labels (extractDemandData ?T2)) \<noteq> length (dd_values (extractDemandData ?T2))"
    by code_simp
  from labels_at_most_values[where tables = ?T1] h1
  have a: "length (dd_labels (extractDemandData ?T1)) = length (dd_values (extractDemandData ?T1))"
    by blast
  from labels_at_most_values[where tables = ?T2 and currentMonth = "''DEC''" and locked = True
      and supplyValues = "[564]"] h2
  have b: "test_body ''DEC'' True [564] (extractDemandData ?T2) = Fail"
    by blast
  from a b show ?thesis by blast
qed

end
